theory Spec2Isabelle
  imports Main "HOL-Library.Monad_Syntax"
begin

section \<open>Machine sizes and characters\<close>

text \<open>
  \<^verbatim>\<open>std::size_t\<close> is a 64-bit unsigned integer: a natural number below \<open>2 ^ 64\<close>, with
  addition and subtraction wrapping around. \<^verbatim>\<open>std::string_view::npos\<close> is its largest
  value. A \<^verbatim>\<open>std::string\<close> is always shorter than \<open>npos\<close>.
\<close>

definition npos :: nat where
  "npos = 18446744073709551615"

definition sz_add :: "nat \<Rightarrow> nat \<Rightarrow> nat" where
  "sz_add a b = (a + b) mod 18446744073709551616"

definition sz_sub :: "nat \<Rightarrow> nat \<Rightarrow> nat" where
  "sz_sub a b = (a + 18446744073709551616 - b) mod 18446744073709551616"

text \<open>
  \<^verbatim>\<open>char\<close> is a signed byte on the platforms the library is built for: the value of a
  character in a comparison or in \<^verbatim>\<open>c - '0'\<close> is \<open>char_int\<close>, and
  \<^verbatim>\<open>static_cast<unsigned int>(c)\<close> sign-extends (\<open>uint_of_char\<close>). For the bytes below
  128 both are the byte itself.
\<close>

definition char_int :: "char \<Rightarrow> int" where
  "char_int c = (if (of_char c :: nat) < 128 then int (of_char c) else int (of_char c) - 256)"

definition uint_of_char :: "char \<Rightarrow> nat" where
  "uint_of_char c = (if (of_char c :: nat) < 128 then of_char c else 4294967040 + of_char c)"

section \<open>Character sets\<close>

text \<open>
  Modelled from the spec: \<^verbatim>\<open>charset_t\<close>, \<^verbatim>\<open>charset(...)\<close>, \<^verbatim>\<open>ALPHA\<close> and \<^verbatim>\<open>DIGIT\<close> live in
  \<^verbatim>\<open>charset.h\<close>, which is not among the sources. A character set is an immutable table of
  permitted characters with a membership test (\<open>contains\<close>) and union composition
  (\<open>charset\<close>); \<^verbatim>\<open>ALPHA\<close> and \<^verbatim>\<open>DIGIT\<close> are the RFC 3986 productions.
\<close>

type_synonym charset_t = "char list"

definition contains :: "charset_t \<Rightarrow> char \<Rightarrow> bool" where
  "contains cs c = (c \<in> set cs)"

definition charset :: "charset_t list \<Rightarrow> charset_t" where
  "charset sets = concat sets"

definition ALPHA :: charset_t where
  "ALPHA = ''abcdefghijklmnopqrstuvwxyz'' @ ''ABCDEFGHIJKLMNOPQRSTUVWXYZ''"

definition DIGIT :: charset_t where
  "DIGIT = ''0123456789''"

text \<open>The sets of \<^verbatim>\<open>basic_uri\<close> (uri.h, lines 170-235).\<close>

definition ALLOWED_CHARACTERS_IN_URI :: charset_t where
  "ALLOWED_CHARACTERS_IN_URI =
     charset [ALPHA, DIGIT,
       [CHR '';'', CHR '','', CHR ''/'', CHR ''?'', CHR '':'', CHR ''@'', CHR ''&'', CHR ''='',
        CHR ''+'', CHR ''$'', CHR ''-'', CHR ''_'', CHR ''.'', CHR ''!'', CHR ''~'', CHR ''*'',
        CHR 0x27, CHR ''('', CHR '')'', CHR ''#'']]"

definition SCHEME_NOT_FIRST :: charset_t where
  "SCHEME_NOT_FIRST = charset [ALPHA, DIGIT, [CHR ''+'', CHR ''-'', CHR ''.'']]"

definition UNRESERVED :: charset_t where
  "UNRESERVED = charset [ALPHA, DIGIT, [CHR ''-'', CHR ''.'', CHR ''_'', CHR ''~'']]"

definition SUB_DELIMS :: charset_t where
  "SUB_DELIMS =
     [CHR ''!'', CHR ''$'', CHR ''&'', CHR 0x27, CHR ''('', CHR '')'', CHR ''*'', CHR ''+'',
      CHR '','', CHR '';'', CHR ''='']"



definition PCHAR_NOT_PCT_ENCODED :: charset_t where
  "PCHAR_NOT_PCT_ENCODED = charset [UNRESERVED, SUB_DELIMS, [CHR '':'', CHR ''@'']]"

definition QUERY_OR_FRAGMENT_NOT_PCT_ENCODED :: charset_t where
  "QUERY_OR_FRAGMENT_NOT_PCT_ENCODED = charset [PCHAR_NOT_PCT_ENCODED, [CHR ''/'', CHR ''?'']]"

section \<open>Percent-encoding codec\<close>

text \<open>
  The digit tests of \<^verbatim>\<open>decode_uri_component\<close> (uri.h, lines 50-58): the value of a
  hexadecimal digit, or \<open>None\<close> where the source returns \<^verbatim>\<open>std::nullopt\<close>.
\<close>

definition hex_value :: "char \<Rightarrow> int option" where
  "hex_value c =
     (if char_int CHR ''0'' \<le> char_int c \<and> char_int c \<le> char_int CHR ''9''
        then Some (char_int c - char_int CHR ''0'')
      else if char_int CHR ''A'' \<le> char_int c \<and> char_int c \<le> char_int CHR ''F''
        then Some (char_int c - char_int CHR ''A'' + 10)
      else if char_int CHR ''a'' \<le> char_int c \<and> char_int c \<le> char_int CHR ''f''
        then Some (char_int c - char_int CHR ''a'' + 10)
      else None)"

text \<open>
  The loop of \<^verbatim>\<open>decode_uri_component\<close> over the remaining input, with its four local
  variables. \<^verbatim>\<open>decoded_char\<close> is an \<^verbatim>\<open>unsigned char\<close>: it is kept modulo 256. When the
  input ends the loop falls through to \<^verbatim>\<open>return std::move(res)\<close>, whatever \<open>decoding\<close> is.
\<close>

fun decode_loop :: "charset_t \<Rightarrow> int \<Rightarrow> int \<Rightarrow> bool \<Rightarrow> string \<Rightarrow> string \<Rightarrow> string option" where
  "decode_loop allowed_chars digits_left decoded_char decoding res [] = Some res"
| "decode_loop allowed_chars digits_left decoded_char decoding res (c # cs) =
     (if decoding \<and> digits_left \<noteq> 0 then
        (case hex_value c of
           None \<Rightarrow> None
         | Some v \<Rightarrow>
             (let decoded_char' = (decoded_char * 16 mod 256 + v) mod 256;
                  digits_left' = digits_left - 1
              in if digits_left' = 0
                 then decode_loop allowed_chars digits_left' decoded_char' False
                        (res @ [char_of decoded_char']) cs
                 else decode_loop allowed_chars digits_left' decoded_char' decoding res cs))
      else if c = CHR ''%'' then decode_loop allowed_chars 2 0 True res cs
      else if \<not> contains allowed_chars c then None
      else decode_loop allowed_chars digits_left decoded_char decoding (res @ [c]) cs)"

definition decode_uri_component :: "string \<Rightarrow> charset_t \<Rightarrow> string option" where
  "decode_uri_component encoded_str allowed_chars =
     decode_loop allowed_chars 2 0 False [] encoded_str"

definition make_hex_digit :: "nat \<Rightarrow> char" where
  "make_hex_digit v = (if v < 10 then char_of (v + 48) else char_of (v - 10 + 65))"

fun encode_uri_component :: "string \<Rightarrow> charset_t \<Rightarrow> string" where
  "encode_uri_component [] allowedCharacters = []"
| "encode_uri_component (c # element) allowedCharacters =
     (if contains allowedCharacters c then [c]
      else [CHR ''%'', make_hex_digit (uint_of_char c div 16),
            make_hex_digit (uint_of_char c mod 16)])
     @ encode_uri_component element allowedCharacters"

section \<open>String views\<close>

text \<open>
  The operations of \<^verbatim>\<open>std::string_view\<close> that the URI class uses. A search returns
  \<open>npos\<close> when nothing is found. \<^verbatim>\<open>substr(pos, n)\<close> throws \<^verbatim>\<open>std::out_of_range\<close> when
  \<open>pos\<close> is beyond the size: that is the value \<open>None\<close>. Every function below that calls
  it is \<^verbatim>\<open>noexcept\<close>, so there the exception ends the process (\<^verbatim>\<open>std::terminate\<close>).
\<close>

fun find_idx :: "('a \<Rightarrow> bool) \<Rightarrow> 'a list \<Rightarrow> nat option" where
  "find_idx P [] = None"
| "find_idx P (x # xs) = (if P x then Some 0 else map_option Suc (find_idx P xs))"

definition sv_find :: "string \<Rightarrow> char \<Rightarrow> nat \<Rightarrow> nat" where
  "sv_find s c pos =
     (case find_idx (\<lambda>x. x = c) (drop pos s) of None \<Rightarrow> npos | Some i \<Rightarrow> pos + i)"

definition sv_find_last_of :: "string \<Rightarrow> char \<Rightarrow> nat" where
  "sv_find_last_of s c =
     (case find_idx (\<lambda>x. x = c) (rev s) of None \<Rightarrow> npos | Some i \<Rightarrow> length s - 1 - i)"

definition sv_find_first_not_of :: "string \<Rightarrow> charset_t \<Rightarrow> nat" where
  "sv_find_first_not_of s cs =
     (case find_idx (\<lambda>x. \<not> contains cs x) s of None \<Rightarrow> npos | Some i \<Rightarrow> i)"

definition sv_substr :: "string \<Rightarrow> nat \<Rightarrow> nat \<Rightarrow> string option" where
  "sv_substr s pos n =
     (if length s < pos then None else Some (take (min n (length s - pos)) (drop pos s)))"

definition starts_with :: "string \<Rightarrow> string \<Rightarrow> bool" where
  "starts_with s p = (take (length p) s = p)"

definition ends_with :: "string \<Rightarrow> string \<Rightarrow> bool" where
  "ends_with s p = (length p \<le> length s \<and> drop (length s - length p) s = p)"

text \<open>
  Modelled from the spec: \<^verbatim>\<open>is::digit\<close> lives in \<^verbatim>\<open>validators.h\<close>, which is not among the
  sources. A text passes when it is all digits (the tests accept \<open>123\<close> and refuse \<open>1.3\<close>).
\<close>

definition is_digit :: "string \<Rightarrow> bool" where
  "is_digit s = list_all (contains DIGIT) s"

text \<open>
  Modelled from the spec: \<^verbatim>\<open>is::scheme\<close> is declared in uri.h (line 27) and defined
  elsewhere. A text passes when it is a letter followed by scheme-tail characters.
\<close>

definition is_scheme :: "string \<Rightarrow> bool" where
  "is_scheme s =
     (case s of [] \<Rightarrow> False | c # cs \<Rightarrow> contains ALPHA c \<and> list_all (contains SCHEME_NOT_FIRST) cs)"

section \<open>The URI value and its offset cache\<close>

text \<open>
  The class \<^verbatim>\<open>basic_uri\<close>: the buffer and the seven cached offsets, each \<open>npos\<close> until it
  is derived. The accessors are \<^verbatim>\<open>const\<close> but write the cache (the fields are
  \<^verbatim>\<open>mutable\<close>): every function takes the value and returns it updated.
\<close>

record basic_uri =
  data :: string
  scheme_end :: nat
  authority_start :: nat
  user_info_end :: nat
  port_start :: nat
  authority_end :: nat
  query_start :: nat
  fragment_start :: nat

text \<open>The constructor from a text, and the default constructor (empty buffer).\<close>

definition uri_of :: "string \<Rightarrow> basic_uri" where
  "uri_of u =
     \<lparr>data = u, scheme_end = npos, authority_start = npos, user_info_end = npos,
      port_start = npos, authority_end = npos, query_start = npos, fragment_start = npos\<rparr>"

definition uri_default :: basic_uri where
  "uri_default = uri_of []"

text \<open>
  \<^verbatim>\<open>parse_scheme\<close> (lines 267-297). \<^verbatim>\<open>__scheme[0]\<close> reads the first byte of the view
  \<^verbatim>\<open>_data.substr(0, colon)\<close>, which is the first byte of the buffer also when the view is
  empty (\<open>colon = 0\<close>); the buffer is not empty there, since it holds the colon. The
  result of \<^verbatim>\<open>find_first_not_of\<close> is used as a truth value: any index but 0 passes.
\<close>

definition parse_scheme :: "basic_uri \<Rightarrow> basic_uri option" where
  "parse_scheme u =
     (if scheme_end u \<noteq> npos then Some u
      else if starts_with (data u) ''//''
        then Some (u\<lparr>authority_start := 2, scheme_end := length (data u)\<rparr>)
      else
        (let colon = sv_find (data u) CHR '':'' 0;
             no_scheme = u\<lparr>authority_start := length (data u), scheme_end := length (data u)\<rparr>
         in if colon \<noteq> npos then
              do {
                scheme_v \<leftarrow> sv_substr (data u) 0 colon;
                tail_ok \<leftarrow>
                  (if contains ALPHA (data u ! 0)
                   then do {
                     rest \<leftarrow> sv_substr scheme_v 1 npos;
                     Some (sv_find_first_not_of rest SCHEME_NOT_FIRST \<noteq> 0)
                   }
                   else Some False);
                if tail_ok then
                  do {
                    slashes \<leftarrow> sv_substr (data u) (sz_add colon 1) 2;
                    Some (if slashes = ''//''
                          then u\<lparr>scheme_end := colon, authority_start := sz_add colon 3\<rparr>
                          else u\<lparr>scheme_end := colon, authority_start := length (data u)\<rparr>)
                  }
                else Some no_scheme
              }
            else Some no_scheme))"

text \<open>\<^verbatim>\<open>parse_fragment\<close> (lines 527-537) and \<^verbatim>\<open>parse_query\<close> (lines 543-554).\<close>

definition parse_fragment :: "basic_uri \<Rightarrow> basic_uri option" where
  "parse_fragment u =
     (if fragment_start u \<noteq> npos then Some u
      else
        (let found = sv_find (data u) CHR ''#'' 0
         in Some (u\<lparr>fragment_start := (if found = npos then length (data u) else found)\<rparr>)))"

definition parse_query :: "basic_uri \<Rightarrow> basic_uri option" where
  "parse_query u =
     (if query_start u \<noteq> npos then Some u
      else
        do {
          u1 \<leftarrow> parse_fragment u;
          head_part \<leftarrow> sv_substr (data u1) 0 (fragment_start u1);
          let found = sv_find head_part CHR ''?'' 0;
          Some (u1\<lparr>query_start := (if found = npos then length (data u1) else found)\<rparr>)
        })"

text \<open>\<^verbatim>\<open>parse_path\<close> (lines 333-357): fills \<open>authority_end\<close>.\<close>

definition parse_path :: "basic_uri \<Rightarrow> basic_uri option" where
  "parse_path u =
     (if authority_end u \<noteq> npos then Some u
      else
        do {
          u1 \<leftarrow> parse_scheme u;
          u2 \<leftarrow> parse_query u1;
          let starting_point =
            (if authority_start u2 \<noteq> length (data u2) then authority_start u2
             else if scheme_end u2 \<noteq> length (data u2) \<and> scheme_end u2 \<noteq> npos
               then scheme_end u2
             else 0);
          range \<leftarrow> sv_substr (data u2) starting_point (sz_sub (query_start u2) starting_point);
          let found = sv_find range CHR ''/'' 0;
          Some (u2\<lparr>authority_end :=
                  (if found = npos then length (data u2) else sz_add found starting_point)\<rparr>)
        })"

text \<open>\<^verbatim>\<open>parse_user_info\<close> (lines 302-327).\<close>

definition parse_user_info :: "basic_uri \<Rightarrow> basic_uri option" where
  "parse_user_info u =
     (if user_info_end u \<noteq> npos then Some u
      else
        do {
          u1 \<leftarrow> parse_scheme u;
          if authority_start u1 = length (data u1)
          then Some (u1\<lparr>user_info_end := length (data u1)\<rparr>)
          else
            do {
              u2 \<leftarrow> parse_path u1;
              range \<leftarrow> sv_substr (data u2) (authority_start u2)
                         (sz_sub (authority_end u2) (authority_start u2));
              let found = sv_find range CHR ''@'' 0;
              Some (u2\<lparr>user_info_end :=
                      (if found = npos then length (data u2)
                       else sz_add found (authority_start u2))\<rparr>)
            }
        })"

text \<open>\<^verbatim>\<open>parse_port\<close> (lines 363-393).\<close>

definition parse_port :: "basic_uri \<Rightarrow> basic_uri option" where
  "parse_port u =
     (if port_start u \<noteq> npos then Some u
      else
        do {
          u1 \<leftarrow> parse_user_info u;
          if authority_start u1 = length (data u1)
          then Some (u1\<lparr>port_start := length (data u1)\<rparr>)
          else
            do {
              u2 \<leftarrow> parse_path u1;
              let starting_point =
                (if user_info_end u2 \<noteq> length (data u2) then user_info_end u2
                 else authority_start u2);
              range \<leftarrow> sv_substr (data u2) starting_point
                         (sz_sub (authority_end u2) starting_point);
              let found = sv_find_last_of range CHR '':'';
              if found = npos then Some (u2\<lparr>port_start := length (data u2)\<rparr>)
              else
                do {
                  let ps = sz_add found starting_point;
                  str_view \<leftarrow> sv_substr (data u2) (sz_add ps 1)
                                (sz_sub (authority_end u2) (sz_add ps 1));
                  Some (u2\<lparr>port_start := (if \<not> is_digit str_view then length (data u2) else ps)\<rparr>)
                }
            }
        })"

text \<open>\<^verbatim>\<open>parse_host\<close> (lines 559-563), \<^verbatim>\<open>unparse\<close> (lines 569-573).\<close>

definition parse_host :: "basic_uri \<Rightarrow> basic_uri option" where
  "parse_host u = do { u1 \<leftarrow> parse_user_info u; u2 \<leftarrow> parse_port u1; parse_path u2 }"

definition unparse :: "basic_uri \<Rightarrow> basic_uri" where
  "unparse u =
     u\<lparr>scheme_end := npos, authority_start := npos, user_info_end := npos, port_start := npos,
       authority_end := npos, query_start := npos, fragment_start := npos\<rparr>"

text \<open>
  The member \<^verbatim>\<open>substr(start, len)\<close> (lines 661-671): an empty view when \<open>len\<close> is 0,
  else the view's \<^verbatim>\<open>substr\<close>.
\<close>

definition uri_substr :: "basic_uri \<Rightarrow> nat \<Rightarrow> nat \<Rightarrow> string option" where
  "uri_substr u start len = (if len = 0 then Some [] else sv_substr (data u) start len)"

text \<open>\<^verbatim>\<open>replace_value\<close> (lines 578-593): the one place that rewrites the buffer.\<close>

definition replace_value :: "basic_uri \<Rightarrow> nat \<Rightarrow> nat \<Rightarrow> string \<Rightarrow> basic_uri option" where
  "replace_value u start len replacement =
     (if start = npos \<or> len = npos \<or> (len = 0 \<and> replacement = []) then Some u
      else
        do {
          front \<leftarrow> uri_substr u 0 start;
          back \<leftarrow> uri_substr u (min (length (data u)) (sz_add start len)) npos;
          Some (unparse (u\<lparr>data := front @ replacement @ back\<rparr>))
        })"

section \<open>Accessors\<close>

text \<open>
  Every accessor is \<^verbatim>\<open>noexcept\<close> and returns its result with the updated cache; \<open>None\<close>
  is the end of the process by an exception that cannot leave the function.
\<close>

definition has_scheme :: "basic_uri \<Rightarrow> (bool \<times> basic_uri) option" where
  "has_scheme u =
     do {
       u1 \<leftarrow> parse_scheme u;
       Some (scheme_end u1 \<noteq> length (data u1) \<or> scheme_end u1 = 0, u1)
     }"

definition scheme :: "basic_uri \<Rightarrow> (string \<times> basic_uri) option" where
  "scheme u =
     do {
       u1 \<leftarrow> parse_scheme u;
       r \<leftarrow> (if scheme_end u1 = length (data u1) then Some []
             else uri_substr u1 0 (scheme_end u1));
       Some (r, u1)
     }"

definition has_user_info :: "basic_uri \<Rightarrow> (bool \<times> basic_uri) option" where
  "has_user_info u =
     do {
       u1 \<leftarrow> parse_user_info u;
       Some (user_info_end u1 \<noteq> length (data u1) \<and> authority_start u1 \<noteq> length (data u1), u1)
     }"

definition user_info :: "basic_uri \<Rightarrow> (string \<times> basic_uri) option" where
  "user_info u =
     do {
       u1 \<leftarrow> parse_user_info u;
       r \<leftarrow> (if user_info_end u1 = length (data u1) \<or> authority_start u1 = length (data u1)
             then Some []
             else uri_substr u1 (authority_start u1)
                    (sz_sub (user_info_end u1) (authority_start u1)));
       Some (r, u1)
     }"

text \<open>\<^verbatim>\<open>host()\<close> (lines 829-865).\<close>

definition host :: "basic_uri \<Rightarrow> (string \<times> basic_uri) option" where
  "host u =
     do {
       u1 \<leftarrow> parse_host u;
       if authority_start u1 = length (data u1) then Some ([], u1)
       else
         do {
           let start =
             (if user_info_end u1 = length (data u1) then authority_start u1
              else user_info_end u1);
           let len =
             (if port_start u1 \<noteq> length (data u1) then sz_sub (port_start u1) start
              else if authority_end u1 \<noteq> length (data u1) then sz_sub (authority_end u1) start
              else sz_sub (length (data u1)) 1);
           r \<leftarrow> uri_substr u1 start len;
           Some (r, u1)
         }
     }"

definition has_host :: "basic_uri \<Rightarrow> (bool \<times> basic_uri) option" where
  "has_host u = do { (h, u1) \<leftarrow> host u; Some (h \<noteq> [], u1) }"

text \<open>\<^verbatim>\<open>port()\<close> (lines 1240-1252) and \<^verbatim>\<open>has_port()\<close> (lines 1259-1262).\<close>

definition port :: "basic_uri \<Rightarrow> (string \<times> basic_uri) option" where
  "port u =
     do {
       u1 \<leftarrow> parse_port u;
       if port_start u1 = length (data u1) then Some ([], u1)
       else
         do {
           r \<leftarrow> uri_substr u1 (sz_add (port_start u1) 1)
                  (sz_sub
                     (if authority_end u1 = length (data u1) then sz_sub (authority_end u1) 1
                      else authority_end u1)
                     (sz_add (port_start u1) 1));
           Some (r, u1)
         }
     }"

definition has_port :: "basic_uri \<Rightarrow> (bool \<times> basic_uri) option" where
  "has_port u = do { u1 \<leftarrow> parse_port u; Some (port_start u1 \<noteq> length (data u1), u1) }"

text \<open>\<^verbatim>\<open>default_port()\<close> (lines 1205-1222); the result is a \<^verbatim>\<open>uint16_t\<close>.\<close>

definition default_port :: "basic_uri \<Rightarrow> (nat \<times> basic_uri) option" where
  "default_port u =
     do {
       (scheme_v, u1) \<leftarrow> scheme u;
       Some (if scheme_v = ''http'' then 80
             else if scheme_v = ''https'' then 443
             else if scheme_v = ''ftp'' then 21
             else if scheme_v = ''ssh'' then 22
             else if scheme_v = ''telnet'' then 23
             else if scheme_v = ''ftps'' then 990
             else 0, u1)
     }"

text \<open>
  Modelled from the spec: \<^verbatim>\<open>to_uint\<close> lives in \<^verbatim>\<open>casts.h\<close>, which is not among the
  sources; it reads a digit string as a number. \<^verbatim>\<open>port_uint16()\<close> (lines 1229-1234)
  casts the number to \<^verbatim>\<open>uint16_t\<close>, which keeps it modulo \<open>65536\<close>.
\<close>

definition to_uint :: "string \<Rightarrow> nat" where
  "to_uint s = foldl (\<lambda>acc c. acc * 10 + (of_char c - 48)) 0 s"

definition port_uint16 :: "basic_uri \<Rightarrow> (nat \<times> basic_uri) option" where
  "port_uint16 u =
     do {
       (present, u1) \<leftarrow> has_port u;
       if present then do { (p, u2) \<leftarrow> port u1; Some (to_uint p mod 65536, u2) }
       else default_port u1
     }"

text \<open>\<^verbatim>\<open>has_path()\<close> and \<^verbatim>\<open>path()\<close> (lines 1330-1344).\<close>

definition has_path :: "basic_uri \<Rightarrow> (bool \<times> basic_uri) option" where
  "has_path u = do { u1 \<leftarrow> parse_path u; Some (authority_end u1 \<noteq> length (data u1), u1) }"

definition path :: "basic_uri \<Rightarrow> (string \<times> basic_uri) option" where
  "path u =
     do {
       (present, u1) \<leftarrow> has_path u;
       if \<not> present then Some ([], u1)
       else
         do {
           r \<leftarrow> uri_substr u1 (authority_end u1)
                  (sz_sub (min (query_start u1) (fragment_start u1)) (authority_end u1));
           Some (r, u1)
         }
     }"

text \<open>\<^verbatim>\<open>has_query()\<close> and \<^verbatim>\<open>query()\<close> (lines 1477-1487).\<close>

definition has_query :: "basic_uri \<Rightarrow> (bool \<times> basic_uri) option" where
  "has_query u = do { u1 \<leftarrow> parse_query u; Some (query_start u1 \<noteq> length (data u1), u1) }"

definition query :: "basic_uri \<Rightarrow> (string \<times> basic_uri) option" where
  "query u =
     do {
       u1 \<leftarrow> parse_query u;
       if query_start u1 = length (data u1) then Some ([], u1)
       else
         do {
           r \<leftarrow> uri_substr u1 (sz_add (query_start u1) 1)
                  (sz_sub (sz_sub (fragment_start u1) (query_start u1)) 1);
           Some (r, u1)
         }
     }"

text \<open>
  \<^verbatim>\<open>fragment()\<close> (lines 1653-1656) takes the rest of the buffer after \<open>fragment_start\<close>,
  and \<^verbatim>\<open>has_fragment()\<close> (lines 1662-1665).
\<close>

definition fragment :: "basic_uri \<Rightarrow> (string \<times> basic_uri) option" where
  "fragment u =
     do {
       u1 \<leftarrow> parse_fragment u;
       r \<leftarrow> uri_substr u1 (sz_add (fragment_start u1) 1) npos;
       Some (r, u1)
     }"

definition has_fragment :: "basic_uri \<Rightarrow> (bool \<times> basic_uri) option" where
  "has_fragment u =
     do { u1 \<leftarrow> parse_fragment u; Some (fragment_start u1 \<noteq> length (data u1), u1) }"

text \<open>
  \<^verbatim>\<open>has_authority()\<close> (lines 1686-1688) and \<^verbatim>\<open>is_valid()\<close> (lines 1814-1817): the
  operands of \<^verbatim>\<open>||\<close> are evaluated from the left until one is true.
\<close>

definition has_authority :: "basic_uri \<Rightarrow> (bool \<times> basic_uri) option" where
  "has_authority u =
     do {
       (b1, u1) \<leftarrow> has_host u;
       if b1 then Some (True, u1)
       else
         do {
           (b2, u2) \<leftarrow> has_user_info u1;
           if b2 then Some (True, u2) else has_port u2
         }
     }"

definition is_valid :: "basic_uri \<Rightarrow> (bool \<times> basic_uri) option" where
  "is_valid u =
     do {
       (b1, u1) \<leftarrow> has_scheme u;
       if b1 then Some (True, u1)
       else
         do {
           (b2, u2) \<leftarrow> has_authority u1;
           if b2 then Some (True, u2)
           else
             do {
               (b3, u3) \<leftarrow> has_path u2;
               if b3 then Some (True, u3) else has_fragment u3
             }
         }
     }"

section \<open>The query map\<close>

text \<open>
  \<^verbatim>\<open>find(const char* s, pos, n)\<close> searches for the first \<open>n\<close> characters of the array
  \<open>s\<close>. The array of a string literal holds its characters and the terminating zero;
  \<open>lit\<close> is the literal without the zero. The implementations of the standard library
  compare the lengths first: when fewer than \<open>n\<close> characters remain after \<open>pos\<close> the
  result is \<open>npos\<close> and the array is not read. Otherwise a count beyond the array is a
  read out of bounds, the value \<open>None\<close>.
\<close>

fun find_sub :: "string \<Rightarrow> string \<Rightarrow> nat option" where
  "find_sub needle [] = (if needle = [] then Some 0 else None)"
| "find_sub needle (x # xs) =
     (if take (length needle) (x # xs) = needle then Some 0
      else map_option Suc (find_sub needle xs))"

definition sv_find_array :: "string \<Rightarrow> string \<Rightarrow> nat \<Rightarrow> nat \<Rightarrow> nat option" where
  "sv_find_array s lit pos n =
     (if n = 0 then Some (if pos \<le> length s then pos else npos)
      else if length s \<le> pos then Some npos
      else if length s - pos < n then Some npos
      else if n \<le> length lit + 1
        then Some (case find_sub (take n (lit @ [CHR 0x00])) (drop pos s) of
                     None \<Rightarrow> npos | Some i \<Rightarrow> pos + i)
      else None)"

text \<open>
  The \<^verbatim>\<open>do ... while\<close> loop of \<^verbatim>\<open>query_structured()\<close> (lines 1599-1621), with the
  number of rounds it may still take: the loop need not end, and \<open>None\<close> is also the
  result when the rounds are used up. \<^verbatim>\<open>continue\<close> goes to the test of the loop.
\<close>

fun query_structured_loop ::
  "nat \<Rightarrow> string \<Rightarrow> nat \<Rightarrow> (string \<rightharpoonup> string) \<Rightarrow> (string \<rightharpoonup> string) option" where
  "query_structured_loop 0 query_v last_and_sep q_structured = None"
| "query_structured_loop (Suc rounds) query_v last_and_sep q_structured =
     (let and_sep = sv_find query_v CHR ''&'' last_and_sep
      in do {
           eq_sep \<leftarrow> sv_find_array query_v ''='' last_and_sep (sz_sub and_sep last_and_sep);
           name \<leftarrow> sv_substr query_v (sz_add last_and_sep 1) (min eq_sep and_sep);
           if name = [] then
             (if and_sep \<noteq> npos then query_structured_loop rounds query_v and_sep q_structured
              else Some q_structured)
           else
             do {
               val \<leftarrow> (if and_sep \<noteq> npos then sv_substr query_v (sz_add eq_sep 1) and_sep
                        else Some []);
               let q_structured' =
                 (case decode_uri_component name QUERY_OR_FRAGMENT_NOT_PCT_ENCODED of
                    None \<Rightarrow> q_structured
                  | Some d_name \<Rightarrow>
                      q_structured(d_name \<mapsto>
                        (case decode_uri_component val QUERY_OR_FRAGMENT_NOT_PCT_ENCODED of
                           None \<Rightarrow> [] | Some d_val \<Rightarrow> d_val)));
               if and_sep \<noteq> npos then query_structured_loop rounds query_v and_sep q_structured'
               else Some q_structured'
             }
         })"

definition query_structured ::
  "nat \<Rightarrow> basic_uri \<Rightarrow> ((string \<rightharpoonup> string) \<times> basic_uri) option" where
  "query_structured rounds u =
     do {
       (query_v, u1) \<leftarrow> query u;
       m \<leftarrow> query_structured_loop rounds query_v 0 Map.empty;
       Some (m, u1)
     }"

section \<open>Mutators\<close>

text \<open>
  A mutator that throws \<^verbatim>\<open>std::invalid_argument\<close> fails with \<open>Invalid_argument\<close>, which
  the caller can catch. An exception that would leave a \<^verbatim>\<open>noexcept\<close> function calls
  \<^verbatim>\<open>std::terminate\<close> instead: the failure \<open>Terminate\<close>, the end of the process.
\<close>

datatype failure = Invalid_argument | Terminate

definition terminated :: "'a option \<Rightarrow> failure + 'a" where
  "terminated r = (case r of None \<Rightarrow> Inl Terminate | Some x \<Rightarrow> Inr x)"

definition noexcept :: "failure + 'a \<Rightarrow> failure + 'a" where
  "noexcept r = (case r of Inl e \<Rightarrow> Inl Terminate | Inr x \<Rightarrow> Inr x)"

text \<open>The scheme setter (lines 714-746); it is not \<^verbatim>\<open>noexcept\<close>.\<close>

definition set_scheme :: "basic_uri \<Rightarrow> string \<Rightarrow> failure + basic_uri" where
  "set_scheme u scheme_in =
     (let scheme_v = (if ends_with scheme_in '':'' then butlast scheme_in else scheme_in)
      in if \<not> is_scheme scheme_v then Inl Invalid_argument
         else
           terminated
             (do {
                u1 \<leftarrow> parse_scheme u;
                if scheme_end u1 \<noteq> length (data u1) then
                  replace_value u1 0
                    (if scheme_v = [] \<and> sz_add (scheme_end u1) 1 < length (data u1)
                        \<and> data u1 ! scheme_end u1 = CHR '':''
                     then sz_add (scheme_end u1) 1 else scheme_end u1)
                    scheme_v
                else
                  (let scheme_colon = (if scheme_v = [] then [] else scheme_v @ '':'')
                   in if authority_start u1 \<noteq> length (data u1) then
                        replace_value u1 0 0
                          (scheme_colon @ (if starts_with (data u1) ''//'' then [] else ''//''))
                      else replace_value u1 0 0 scheme_colon)
              }))"

text \<open>
  The port setter (lines 1277-1318). It is declared \<^verbatim>\<open>noexcept\<close> and throws
  \<^verbatim>\<open>std::invalid_argument\<close> in its body.
\<close>

definition set_port :: "basic_uri \<Rightarrow> string \<Rightarrow> failure + basic_uri" where
  "set_port u port_in =
     noexcept
       (let new_port = (if starts_with port_in '':'' then drop 1 port_in else port_in)
        in if \<not> is_digit new_port then Inl Invalid_argument
           else
             terminated
               (do {
                  u1 \<leftarrow> parse_port u;
                  if port_start u1 = length (data u1) then
                    do {
                      u2 \<leftarrow> parse_host u1;
                      if authority_end u2 \<noteq> length (data u2) then
                        replace_value u2 (authority_end u2) 0 ('':'' @ new_port)
                      else if user_info_end u2 \<noteq> length (data u2) then
                        replace_value u2 (sz_add (user_info_end u2) 1)
                          (sz_add (user_info_end u2) 1) ('':'' @ new_port)
                      else if authority_start u2 \<noteq> length (data u2) then
                        replace_value u2 (sz_add (authority_start u2) 1) 0 ('':'' @ new_port)
                      else if scheme_end u2 = length (data u2) then
                        replace_value u2 0 0 (''//:'' @ new_port)
                      else
                        replace_value u2 (sz_add (scheme_end u2) 1) 0 (''//:'' @ new_port)
                    }
                  else
                    replace_value u1 (sz_add (port_start u1) 1)
                      (if authority_end u1 = length (data u1) then sz_sub (authority_end u1) 1
                       else authority_end u1)
                      new_port
                }))"

text \<open>
  The path setter (lines 1440-1450) and the user-info setter (lines 784-818); both are
  \<^verbatim>\<open>noexcept\<close> and throw nothing themselves. \<open>encoded_path\<close> is the local
  \<^verbatim>\<open>_encoded_path\<close> of the path setter.
\<close>

definition encoded_path :: "string \<Rightarrow> string" where
  "encoded_path path_in =
     (if starts_with path_in ''/'' then [] else ''/'')
     @ encode_uri_component path_in (charset [PCHAR_NOT_PCT_ENCODED, ''/''])"

definition set_path :: "basic_uri \<Rightarrow> string \<Rightarrow> basic_uri option" where
  "set_path u path_in =
     do {
       u1 \<leftarrow> parse_path u;
       replace_value u1 (authority_end u1) (sz_sub (query_start u1) (authority_end u1))
         (encoded_path path_in)
     }"





text \<open>
  \<^verbatim>\<open>normalize_path()\<close> (lines 1645-1648): the body is \<^verbatim>\<open>// TODO\<close> and
  \<^verbatim>\<open>return *this\<close>. \<^verbatim>\<open>resolve()\<close> (lines 1723-1781) calls it on every branch that
  has a path to normalize; \<^verbatim>\<open>resolve()\<close> itself names a fragment setter and the members
  \<^verbatim>\<open>_query\<close> and \<^verbatim>\<open>_path\<close>, none of which the class declares, so it has no
  behaviour of its own to embed.
\<close>

definition normalize_path :: "basic_uri \<Rightarrow> basic_uri" where
  "normalize_path u = u"

section \<open>The derivation rules as functions of the buffer\<close>

text \<open>
  What each parsing function stores, written as a function of the buffer alone: the
  view \<^verbatim>\<open>substr(pos, n)\<close> for a position inside the buffer, and the seven positions in
  the order of their dependencies. They are used to state what the cache holds; the
  results below show that the parsing functions compute exactly these values.
\<close>

definition view :: "string \<Rightarrow> nat \<Rightarrow> nat \<Rightarrow> string" where
  "view s pos n = take (min n (length s - pos)) (drop pos s)"

definition fragment_pos :: "string \<Rightarrow> nat" where
  "fragment_pos s =
     (if sv_find s CHR ''#'' 0 = npos then length s else sv_find s CHR ''#'' 0)"

definition query_pos :: "string \<Rightarrow> nat" where
  "query_pos s =
     (if sv_find (view s 0 (fragment_pos s)) CHR ''?'' 0 = npos then length s
      else sv_find (view s 0 (fragment_pos s)) CHR ''?'' 0)"

definition scheme_accepted :: "string \<Rightarrow> bool" where
  "scheme_accepted s =
     (sv_find s CHR '':'' 0 \<noteq> npos \<and> contains ALPHA (s ! 0) \<and>
      sv_find_first_not_of (view (view s 0 (sv_find s CHR '':'' 0)) 1 npos) SCHEME_NOT_FIRST \<noteq> 0)"

definition scheme_pos :: "string \<Rightarrow> nat" where
  "scheme_pos s =
     (if starts_with s ''//'' then length s
      else if scheme_accepted s then sv_find s CHR '':'' 0
      else length s)"

definition authority_pos :: "string \<Rightarrow> nat" where
  "authority_pos s =
     (if starts_with s ''//'' then 2
      else if scheme_accepted s \<and> view s (sv_find s CHR '':'' 0 + 1) 2 = ''//''
        then sv_find s CHR '':'' 0 + 3
      else length s)"

definition path_from :: "string \<Rightarrow> nat" where
  "path_from s =
     (if authority_pos s \<noteq> length s then authority_pos s
      else if scheme_pos s \<noteq> length s then scheme_pos s
      else 0)"

definition path_pos :: "string \<Rightarrow> nat" where
  "path_pos s =
     (let found = sv_find (view s (path_from s) (sz_sub (query_pos s) (path_from s))) CHR ''/'' 0
      in if found = npos then length s else found + path_from s)"

definition user_info_pos :: "string \<Rightarrow> nat" where
  "user_info_pos s =
     (if authority_pos s = length s then length s
      else
        (let found = sv_find (view s (authority_pos s) (path_pos s - authority_pos s)) CHR ''@'' 0
         in if found = npos then length s else found + authority_pos s))"

definition port_from :: "string \<Rightarrow> nat" where
  "port_from s = (if user_info_pos s \<noteq> length s then user_info_pos s else authority_pos s)"

definition port_pos :: "string \<Rightarrow> nat" where
  "port_pos s =
     (if authority_pos s = length s then length s
      else
        (let found = sv_find_last_of (view s (port_from s) (path_pos s - port_from s)) CHR '':''
         in if found = npos then length s
            else if \<not> is_digit (view s (found + port_from s + 1)
                                  (path_pos s - (found + port_from s + 1)))
              then length s
            else found + port_from s))"

definition parsed :: "string \<Rightarrow> basic_uri" where
  "parsed s =
     \<lparr>data = s, scheme_end = scheme_pos s, authority_start = authority_pos s,
      user_info_end = user_info_pos s, port_start = port_pos s, authority_end = path_pos s,
      query_start = query_pos s, fragment_start = fragment_pos s\<rparr>"

text \<open>
  The invariant of the cache: an offset is either unknown or the position derived from
  the buffer, and an offset is only known together with the offsets it was derived from.
\<close>

definition cache_ok :: "basic_uri \<Rightarrow> bool" where
  "cache_ok u \<longleftrightarrow>
     length (data u) < npos \<and>
     (scheme_end u = npos \<and> authority_start u = npos \<or>
      scheme_end u = scheme_pos (data u) \<and> authority_start u = authority_pos (data u)) \<and>
     (fragment_start u = npos \<or> fragment_start u = fragment_pos (data u)) \<and>
     (query_start u = npos \<or>
      query_start u = query_pos (data u) \<and> fragment_start u = fragment_pos (data u)) \<and>
     (authority_end u = npos \<or>
      authority_end u = path_pos (data u) \<and> scheme_end u = scheme_pos (data u) \<and>
      authority_start u = authority_pos (data u) \<and> query_start u = query_pos (data u) \<and>
      fragment_start u = fragment_pos (data u)) \<and>
     (user_info_end u = npos \<or>
      user_info_end u = user_info_pos (data u) \<and> scheme_end u = scheme_pos (data u) \<and>
      authority_start u = authority_pos (data u) \<and>
      (authority_pos (data u) = length (data u) \<or> authority_end u = path_pos (data u))) \<and>
     (port_start u = npos \<or>
      port_start u = port_pos (data u) \<and> user_info_end u = user_info_pos (data u) \<and>
      scheme_end u = scheme_pos (data u) \<and> authority_start u = authority_pos (data u) \<and>
      (authority_pos (data u) = length (data u) \<or> authority_end u = path_pos (data u)))"

text \<open>The cache after each parsing function: the offsets it fills, set to their positions.\<close>

definition with_scheme :: "basic_uri \<Rightarrow> basic_uri" where
  "with_scheme u =
     u\<lparr>authority_start := authority_pos (data u), scheme_end := scheme_pos (data u)\<rparr>"

definition with_fragment :: "basic_uri \<Rightarrow> basic_uri" where
  "with_fragment u = u\<lparr>fragment_start := fragment_pos (data u)\<rparr>"

definition with_query :: "basic_uri \<Rightarrow> basic_uri" where
  "with_query u = (with_fragment u)\<lparr>query_start := query_pos (data u)\<rparr>"

definition with_path :: "basic_uri \<Rightarrow> basic_uri" where
  "with_path u = (with_query (with_scheme u))\<lparr>authority_end := path_pos (data u)\<rparr>"

definition with_user_info :: "basic_uri \<Rightarrow> basic_uri" where
  "with_user_info u =
     (if authority_pos (data u) = length (data u) then with_scheme u else with_path u)
       \<lparr>user_info_end := user_info_pos (data u)\<rparr>"

definition with_port :: "basic_uri \<Rightarrow> basic_uri" where
  "with_port u = (with_user_info u)\<lparr>port_start := port_pos (data u)\<rparr>"

text \<open>
  The states a URI value can be in: built from a text, then changed by the parsing
  functions and by \<open>replace_value\<close> (behind every mutator) in any order.
\<close>

inductive reachable :: "basic_uri \<Rightarrow> bool" where
  constructed: "length s < npos \<Longrightarrow> reachable (uri_of s)"
| scheme_parsed: "reachable u \<Longrightarrow> parse_scheme u = Some u' \<Longrightarrow> reachable u'"
| fragment_parsed: "reachable u \<Longrightarrow> parse_fragment u = Some u' \<Longrightarrow> reachable u'"
| query_parsed: "reachable u \<Longrightarrow> parse_query u = Some u' \<Longrightarrow> reachable u'"
| path_parsed: "reachable u \<Longrightarrow> parse_path u = Some u' \<Longrightarrow> reachable u'"
| user_info_parsed: "reachable u \<Longrightarrow> parse_user_info u = Some u' \<Longrightarrow> reachable u'"
| port_parsed: "reachable u \<Longrightarrow> parse_port u = Some u' \<Longrightarrow> reachable u'"
| host_parsed: "reachable u \<Longrightarrow> parse_host u = Some u' \<Longrightarrow> reachable u'"
| replaced: "reachable u \<Longrightarrow> replace_value u start len replacement = Some u' \<Longrightarrow>
             length (data u') < npos \<Longrightarrow> reachable u'"

text \<open>
  All seven offsets resolved; the chain of inequalities over all seven offsets; and the
  bounds that hold of resolved offsets: each is at most the length of the buffer (the
  length itself stands for an absent component), and the offsets of present components
  are ordered within the authority and between query and fragment.
\<close>

definition resolved :: "basic_uri \<Rightarrow> bool" where
  "resolved u =
     (scheme_end u \<noteq> npos \<and> authority_start u \<noteq> npos \<and> user_info_end u \<noteq> npos \<and>
      port_start u \<noteq> npos \<and> authority_end u \<noteq> npos \<and> query_start u \<noteq> npos \<and>
      fragment_start u \<noteq> npos)"

definition offsets_chain :: "basic_uri \<Rightarrow> bool" where
  "offsets_chain u =
     (scheme_end u \<le> authority_start u \<and> authority_start u \<le> user_info_end u \<and>
      user_info_end u \<le> port_start u \<and> port_start u \<le> authority_end u \<and>
      authority_end u \<le> query_start u \<and> query_start u \<le> fragment_start u \<and>
      fragment_start u \<le> length (data u))"

definition offsets_within :: "basic_uri \<Rightarrow> bool" where
  "offsets_within u =
     (scheme_end u \<le> length (data u) \<and> authority_start u \<le> length (data u) \<and>
      user_info_end u \<le> length (data u) \<and> port_start u \<le> length (data u) \<and>
      authority_end u \<le> length (data u) \<and> query_start u \<le> length (data u) \<and>
      fragment_start u \<le> length (data u) \<and>
      (scheme_end u = length (data u) \<or> authority_start u = length (data u) \<or>
       scheme_end u + 3 = authority_start u) \<and>
      (authority_start u = length (data u) \<or> authority_start u \<le> authority_end u) \<and>
      (user_info_end u = length (data u) \<or>
       authority_start u \<le> user_info_end u \<and> user_info_end u < authority_end u) \<and>
      (port_start u = length (data u) \<or>
       authority_start u \<le> port_start u \<and> port_start u < authority_end u \<and>
       (user_info_end u = length (data u) \<or> user_info_end u \<le> port_start u)) \<and>
      (query_start u = length (data u) \<or> query_start u < fragment_start u))"







section \<open>The codec: results\<close>

lemma encode_allowed_id:
  "list_all (contains allowed) str \<Longrightarrow> encode_uri_component str allowed = str"
  by (induction str) simp_all

lemma decode_loop_allowed:
  "list_all (contains allowed) str \<Longrightarrow> \<not> contains allowed CHR ''%'' \<Longrightarrow>
   decode_loop allowed dl dc False res str = Some (res @ str)"
proof (induction str arbitrary: res)
  case Nil
  then show ?case by simp
next
  case (Cons c cs)
  from Cons.prems have c: "contains allowed c" and cs: "list_all (contains allowed) cs"
    by simp_all
  from c Cons.prems(2) have "c \<noteq> CHR ''%''" by auto
  with c Cons.IH [OF cs Cons.prems(2)] show ?case by simp
qed

lemma percent_not_allowed_in_uri: "\<not> contains ALLOWED_CHARACTERS_IN_URI CHR ''%''"
  by (simp add: contains_def ALLOWED_CHARACTERS_IN_URI_def charset_def ALPHA_def DIGIT_def)

text \<open>
  C5. Round trip: a text built only from characters of \<open>ALLOWED_CHARACTERS_IN_URI\<close> is
  left as it is by \<open>encode_uri_component\<close>, and \<open>decode_uri_component\<close> of the result
  returns exactly the original text.
\<close>

theorem encode_decode_roundtrip:
  "list_all (contains ALLOWED_CHARACTERS_IN_URI) str \<Longrightarrow>
   decode_uri_component (encode_uri_component str ALLOWED_CHARACTERS_IN_URI)
     ALLOWED_CHARACTERS_IN_URI = Some str"
  using decode_loop_allowed [of ALLOWED_CHARACTERS_IN_URI str 2 0 "[]"]
  by (simp add: encode_allowed_id decode_uri_component_def percent_not_allowed_in_uri)

theorem encode_decode_roundtrip_witness:
  "list_all (contains ALLOWED_CHARACTERS_IN_URI) ''a/b?c=d#e'' \<and>
   decode_uri_component (encode_uri_component ''a/b?c=d#e'' ALLOWED_CHARACTERS_IN_URI)
     ALLOWED_CHARACTERS_IN_URI = Some ''a/b?c=d#e''"
proof -
  have h: "list_all (contains ALLOWED_CHARACTERS_IN_URI) ''a/b?c=d#e''"
    by (simp add: contains_def ALLOWED_CHARACTERS_IN_URI_def charset_def ALPHA_def DIGIT_def)
  from h encode_decode_roundtrip [OF h] show ?thesis by simp
qed

text \<open>
  C2. The claim is that a truncated escape makes the whole decode fail. The code has no
  check after its loop: on the input \<open>%2\<close> it returns the empty string, and on \<open>ab%2\<close>
  the partial output \<open>ab\<close>, for every allowed set (here the one of the URI).
\<close>

theorem decode_truncated_escape:
  "decode_uri_component ''%2'' allowed_chars = Some [] \<and>
   decode_uri_component ''ab%2'' ALLOWED_CHARACTERS_IN_URI = Some ''ab''"
  by (simp add: decode_uri_component_def hex_value_def char_int_def contains_def
      ALLOWED_CHARACTERS_IN_URI_def charset_def ALPHA_def DIGIT_def)

section \<open>Evaluating the model on a given URI\<close>

lemmas sv_defs = npos_def sz_add_def sz_sub_def sv_find_def sv_find_last_of_def
  sv_find_first_not_of_def sv_substr_def starts_with_def ends_with_def uri_substr_def

lemmas parse_defs = parse_scheme_def parse_fragment_def parse_query_def parse_path_def
  parse_user_info_def parse_port_def parse_host_def uri_of_def uri_default_def

lemmas set_defs = contains_def charset_def ALPHA_def DIGIT_def SCHEME_NOT_FIRST_def
  is_digit_def

text \<open>
  C1. On the URI \<open>foo://example.com:8042/over/there?name=ferret#nose\<close> the accessors,
  called one after the other on the same value, return the scheme \<open>foo\<close>, the host
  \<open>example.com\<close>, the port \<open>8042\<close>, the path \<open>/over/there\<close> and the fragment \<open>nose\<close>
  as claimed. \<open>query_structured()\<close> does not return the map from \<open>name\<close> to \<open>ferret\<close>:
  its first name starts one character after \<open>last_and_sep\<close> and runs to the end of the
  query, so the map it returns has the one key \<open>ame=ferret\<close>, with the empty value.
\<close>

theorem rfc_example_components:
  "do {
     (s, u1) \<leftarrow> scheme (uri_of ''foo://example.com:8042/over/there?name=ferret#nose'');
     (h, u2) \<leftarrow> host u1;
     (p, u3) \<leftarrow> port u2;
     (pa, u4) \<leftarrow> path u3;
     (f, u5) \<leftarrow> fragment u4;
     (q, u6) \<leftarrow> query_structured (Suc rounds) u5;
     Some (s, h, p, pa, f, q)
   } = Some (''foo'', ''example.com'', ''8042'', ''/over/there'', ''nose'',
             [''ame=ferret'' \<mapsto> []])"
  by (simp add: scheme_def host_def port_def path_def has_path_def fragment_def query_def
      query_structured_def sv_find_array_def decode_uri_component_def
      QUERY_OR_FRAGMENT_NOT_PCT_ENCODED_def PCHAR_NOT_PCT_ENCODED_def UNRESERVED_def
      SUB_DELIMS_def sv_defs parse_defs set_defs)

text \<open>
  C4. Resolving \<open>../g\<close> against \<open>http://a/b/c/d;p?q\<close> merges the paths to \<open>/b/c/../g\<close> and
  needs \<open>normalize_path\<close> to reach \<open>http://a/b/g\<close>. \<open>normalize_path\<close> returns the URI as
  it is: the dot segments stay in the path.
\<close>

theorem normalize_path_keeps_dot_segments:
  "map_option fst (path (normalize_path (uri_of ''http://a/b/c/../g''))) = Some ''/b/c/../g'' \<and>
   data (normalize_path (uri_of ''http://a/b/c/../g'')) \<noteq> ''http://a/b/g''"
  by (simp add: normalize_path_def path_def has_path_def sv_defs parse_defs set_defs)

text \<open>
  C6. The candidate \<open>ht!p\<close> of the buffer \<open>ht!p:x\<close> has the character \<open>!\<close>, which is
  not a scheme-tail character, and \<open>parse_scheme\<close> accepts it: the scheme ends at the
  colon (offset 4) and \<open>scheme()\<close> is \<open>ht!p\<close>. The test of the tail uses the index that
  \<^verbatim>\<open>find_first_not_of\<close> returns as a truth value, so only a bad character right after
  the first letter is refused.
\<close>

theorem scheme_with_bad_character_accepted:
  "map_option scheme_end (parse_scheme (uri_of ''ht!p:x'')) = Some 4 \<and>
   map_option fst (scheme (uri_of ''ht!p:x'')) = Some ''ht!p'' \<and>
   \<not> list_all (contains SCHEME_NOT_FIRST) ''t!p''"
  by (simp add: scheme_def sv_defs parse_defs set_defs)

text \<open>
  C7. With no path after the authority, \<open>port()\<close> returns the digits without the last
  one: \<open>808\<close> for \<open>http://example.com:8080\<close>, and \<open>port_uint16()\<close> the number 808. With a
  path after it the port is complete.
\<close>

theorem port_without_path_loses_digit:
  "map_option fst (port (uri_of ''http://example.com:8080'')) = Some ''808'' \<and>
   map_option fst (port_uint16 (uri_of ''http://example.com:8080'')) = Some 808 \<and>
   map_option fst (port (uri_of ''http://example.com:8080/'')) = Some ''8080''"
  by (simp add: port_def port_uint16_def has_port_def to_uint_def sv_defs parse_defs set_defs)

text \<open>
  C8. The scheme setter refuses a bad scheme with an exception the caller can catch,
  before it touches the value. The port setter throws the same exception inside a
  \<^verbatim>\<open>noexcept\<close> function: a port that is not all digits ends the process.
\<close>

theorem port_setter_terminates:
  "set_port (uri_of ''http://example.com'') ''8a'' = Inl Terminate \<and>
   set_scheme (uri_of ''http://example.com'') ''1x'' = Inl Invalid_argument"
  by (simp add: set_port_def set_scheme_def noexcept_def is_scheme_def sv_defs set_defs)

text \<open>
  C10. For the URI of the default constructor (empty buffer) \<open>parse_scheme\<close> resolves
  \<open>scheme_end\<close> to 0, \<open>has_scheme()\<close> returns true, and so does \<open>is_valid()\<close>.
\<close>

theorem empty_uri_has_scheme:
  "map_option fst (has_scheme uri_default) = Some True \<and>
   map_option (scheme_end \<circ> snd) (has_scheme uri_default) = Some 0 \<and>
   map_option fst (is_valid uri_default) = Some True"
  by (simp add: has_scheme_def is_valid_def sv_defs parse_defs)

theorem empty_uri_has_scheme_witness:
  "map_option fst (is_valid (uri_of [])) = Some True"
  using empty_uri_has_scheme by (simp add: uri_default_def)

section \<open>The offset cache: results\<close>

subsection \<open>Searching\<close>

lemma find_idx_None_iff: "find_idx P xs = None \<longleftrightarrow> (\<forall>x \<in> set xs. \<not> P x)"
  by (induction xs) auto

lemma find_idx_Some_D:
  "find_idx P xs = Some i \<Longrightarrow> i < length xs \<and> P (xs ! i) \<and> (\<forall>j < i. \<not> P (xs ! j))"
proof (induction xs arbitrary: i)
  case Nil
  then show ?case by simp
next
  case (Cons x xs)
  show ?case
  proof (cases "P x")
    case True
    with Cons.prems show ?thesis by simp
  next
    case False
    with Cons.prems obtain k where k: "find_idx P xs = Some k" "i = Suc k" by auto
    from Cons.IH [OF k(1)] False k(2) show ?thesis
      by (auto simp: nth_Cons split: nat.splits)
  qed
qed


lemma find_idx_append:
  "find_idx P (xs @ ys) =
     (case find_idx P xs of Some i \<Rightarrow> Some i
      | None \<Rightarrow> map_option (\<lambda>i. length xs + i) (find_idx P ys))"
proof (induction xs)
  case Nil
  show ?case by (cases "find_idx P ys") simp_all
next
  case (Cons x xs)
  show ?case
  proof (cases "find_idx P xs")
    case None
    with Cons show ?thesis by (cases "find_idx P ys") simp_all
  next
    case (Some i)
    with Cons show ?thesis by simp
  qed
qed

lemma sv_find_0: "sv_find s c 0 = (case find_idx (\<lambda>x. x = c) s of None \<Rightarrow> npos | Some i \<Rightarrow> i)"
  by (simp add: sv_find_def split: option.splits)

lemma sv_find_cases:
  assumes "length s < npos"
  obtains (absent) "sv_find s c 0 = npos" "c \<notin> set s"
        | (present) "sv_find s c 0 < length s" "s ! sv_find s c 0 = c"
                    "\<forall>j < sv_find s c 0. s ! j \<noteq> c" "sv_find s c 0 \<noteq> npos"
proof (cases "find_idx (\<lambda>x. x = c) s")
  case None
  have "sv_find s c 0 = npos" by (simp add: sv_find_0 None)
  moreover have "c \<notin> set s" using None by (auto simp: find_idx_None_iff)
  ultimately show ?thesis by (rule absent)
next
  case (Some i)
  have eq: "sv_find s c 0 = i" by (simp add: sv_find_0 Some)
  from find_idx_Some_D [OF Some] assms show ?thesis
    by (intro present) (auto simp: eq)
qed

lemma sv_find_last_cases:
  assumes "length s < npos"
  obtains (absent) "sv_find_last_of s c = npos" "c \<notin> set s"
        | (present) "sv_find_last_of s c < length s" "s ! sv_find_last_of s c = c"
                    "sv_find_last_of s c \<noteq> npos"
proof (cases "find_idx (\<lambda>x. x = c) (rev s)")
  case None
  have "sv_find_last_of s c = npos" by (simp add: sv_find_last_of_def None)
  moreover have "c \<notin> set s" using None by (auto simp: find_idx_None_iff)
  ultimately show ?thesis by (rule absent)
next
  case (Some i)
  from find_idx_Some_D [OF Some] have i: "i < length s" "rev s ! i = c" by auto
  then have "s ! (length s - 1 - i) = c" by (simp add: rev_nth)
  moreover have eq: "sv_find_last_of s c = length s - 1 - i"
    by (simp add: sv_find_last_of_def Some)
  ultimately show ?thesis using i assms
    by (intro present) (auto simp: eq)
qed

lemma sv_find_dest:
  "length s < npos \<Longrightarrow>
   sv_find s c 0 = npos \<and> c \<notin> set s \<or>
   sv_find s c 0 < length s \<and> sv_find s c 0 \<noteq> npos \<and> s ! sv_find s c 0 = c \<and>
     (\<forall>j < sv_find s c 0. s ! j \<noteq> c)"
  by (rule sv_find_cases [of s c]) simp_all

lemma sv_find_last_dest:
  "length s < npos \<Longrightarrow>
   sv_find_last_of s c = npos \<and> c \<notin> set s \<or>
   sv_find_last_of s c < length s \<and> sv_find_last_of s c \<noteq> npos \<and>
     s ! sv_find_last_of s c = c"
  by (rule sv_find_last_cases [of s c]) simp_all

lemma sv_substr_view: "pos \<le> length s \<Longrightarrow> sv_substr s pos n = Some (view s pos n)"
  by (simp add: sv_substr_def view_def)

lemma length_view: "length (view s pos n) \<le> length s - pos"
  by (simp add: view_def)

lemma length_view_n: "length (view s pos n) \<le> n"
  by (simp add: view_def)

lemma sz_add_small: "a + b < 18446744073709551616 \<Longrightarrow> sz_add a b = a + b"
  by (simp add: sz_add_def)

lemma sz_sub_small: "b \<le> a \<Longrightarrow> a < 18446744073709551616 \<Longrightarrow> sz_sub a b = a - b"
proof -
  assume h: "b \<le> a" "a < 18446744073709551616"
  then have eq: "a + 18446744073709551616 - b = (a - b) + 18446744073709551616" by simp
  have "sz_sub a b = ((a - b) + 18446744073709551616) mod 18446744073709551616"
    by (simp only: sz_sub_def eq)
  also have "\<dots> = (a - b) mod 18446744073709551616" by (simp only: mod_add_self2)
  also have "\<dots> = a - b" using h by (intro mod_less) arith
  finally show ?thesis .
qed

subsection \<open>Bounds of the derived positions\<close>


lemma fragment_pos_le: "length s < npos \<Longrightarrow> fragment_pos s \<le> length s"
  by (rule sv_find_cases [of s "CHR ''#''"]) (simp_all add: fragment_pos_def)

lemma query_pos_le: "length s < npos \<Longrightarrow> query_pos s \<le> length s"
proof -
  assume len: "length s < npos"
  have "length (view s 0 (fragment_pos s)) < npos"
    using len length_view [of s 0 "fragment_pos s"] by simp
  from sv_find_dest [OF this, of "CHR ''?''"] show ?thesis
    using length_view [of s 0 "fragment_pos s"]
    by (auto simp add: query_pos_def)
qed

lemma query_pos_lt:
  "length s < npos \<Longrightarrow> query_pos s \<noteq> length s \<Longrightarrow> query_pos s < fragment_pos s"
proof -
  assume len: "length s < npos" and q: "query_pos s \<noteq> length s"
  have "length (view s 0 (fragment_pos s)) < npos"
    using len length_view [of s 0 "fragment_pos s"] by simp
  from sv_find_dest [OF this, of "CHR ''?''"] show ?thesis
    using length_view_n [of s 0 "fragment_pos s"] q
    by (auto simp add: query_pos_def)
qed

lemma starts_with_length: "starts_with s p \<Longrightarrow> length p \<le> length s"
  by (metis starts_with_def length_take min.cobounded1 min_def nat_le_linear)

lemma scheme_pos_le: "length s < npos \<Longrightarrow> scheme_pos s \<le> length s"
  by (rule sv_find_cases [of s "CHR '':''"]) (simp_all add: scheme_pos_def scheme_accepted_def)

lemma authority_pos_le: "length s < npos \<Longrightarrow> authority_pos s \<le> length s"
proof -
  assume len: "length s < npos"
  show ?thesis
  proof (cases "starts_with s ''//''")
    case True
    from starts_with_length [OF True] True show ?thesis by (simp add: authority_pos_def)
  next
    case False
    show ?thesis
    proof (cases "scheme_accepted s \<and> view s (sv_find s CHR '':'' 0 + 1) 2 = ''//''")
      case True
      then have "length (view s (sv_find s CHR '':'' 0 + 1) 2) = 2" by simp
      with length_view [of s "sv_find s CHR '':'' 0 + 1" 2]
      have "sv_find s CHR '':'' 0 + 3 \<le> length s" by simp
      with True False show ?thesis by (simp add: authority_pos_def)
    next
      case no: False
      with False show ?thesis by (auto simp add: authority_pos_def)
    qed
  qed
qed

lemma scheme_authority_pos:
  "length s < npos \<Longrightarrow> scheme_pos s \<noteq> length s \<Longrightarrow> authority_pos s \<noteq> length s \<Longrightarrow>
   scheme_pos s + 3 = authority_pos s"
  by (auto simp: scheme_pos_def authority_pos_def split: if_splits)

lemma path_from_le: "length s < npos \<Longrightarrow> path_from s \<le> length s"
  using scheme_pos_le [of s] authority_pos_le [of s] by (simp add: path_from_def)

lemma path_pos_bounds:
  assumes "length s < npos"
  shows "path_pos s \<le> length s" and "path_from s \<le> path_pos s"
proof -
  let ?r = "view s (path_from s) (sz_sub (query_pos s) (path_from s))"
  have r: "length ?r \<le> length s - path_from s" by (rule length_view)
  with assms have "length ?r < npos" by simp
  from sv_find_dest [OF this, of "CHR ''/''"]
  have "path_pos s \<le> length s \<and> path_from s \<le> path_pos s"
    using r path_from_le [OF assms]
    by (auto simp add: path_pos_def Let_def)
  then show "path_pos s \<le> length s" and "path_from s \<le> path_pos s" by simp_all
qed

lemma authority_le_path:
  "length s < npos \<Longrightarrow> authority_pos s \<noteq> length s \<Longrightarrow> authority_pos s \<le> path_pos s"
  using path_pos_bounds(2) [of s] by (simp add: path_from_def)

lemma user_info_pos_bounds:
  assumes "length s < npos"
  shows "user_info_pos s \<le> length s"
    and "user_info_pos s \<noteq> length s \<Longrightarrow>
         authority_pos s \<le> user_info_pos s \<and> user_info_pos s < path_pos s"
proof -
  let ?r = "view s (authority_pos s) (path_pos s - authority_pos s)"
  have r: "length ?r \<le> length s - authority_pos s" "length ?r \<le> path_pos s - authority_pos s"
    by (rule length_view, rule length_view_n)
  with assms have "length ?r < npos" by simp
  then have "user_info_pos s \<le> length s \<and>
    (user_info_pos s \<noteq> length s \<longrightarrow>
       authority_pos s \<le> user_info_pos s \<and> user_info_pos s < path_pos s)"
    using r authority_pos_le [OF assms] sv_find_dest [OF \<open>length ?r < npos\<close>, of "CHR ''@''"]
    by (auto simp add: user_info_pos_def Let_def)
  then show "user_info_pos s \<le> length s"
    and "user_info_pos s \<noteq> length s \<Longrightarrow>
         authority_pos s \<le> user_info_pos s \<and> user_info_pos s < path_pos s"
    by simp_all
qed

lemma port_from_bounds:
  assumes "length s < npos" "authority_pos s \<noteq> length s"
  shows "authority_pos s \<le> port_from s" and "port_from s \<le> path_pos s"
  using user_info_pos_bounds(2) [OF assms(1)] authority_le_path [OF assms]
  by (auto simp: port_from_def)

lemma port_pos_bounds:
  assumes "length s < npos"
  shows "port_pos s \<le> length s"
    and "port_pos s \<noteq> length s \<Longrightarrow> port_from s \<le> port_pos s \<and> port_pos s < path_pos s"
proof -
  let ?r = "view s (port_from s) (path_pos s - port_from s)"
  have r: "length ?r \<le> length s - port_from s" "length ?r \<le> path_pos s - port_from s"
    by (rule length_view, rule length_view_n)
  with assms have "length ?r < npos" by simp
  then have "port_pos s \<le> length s \<and>
    (port_pos s \<noteq> length s \<longrightarrow> port_from s \<le> port_pos s \<and> port_pos s < path_pos s)"
    using r path_pos_bounds(1) [OF assms]
      sv_find_last_dest [OF \<open>length ?r < npos\<close>, of "CHR '':''"]
    by (auto simp add: port_pos_def Let_def)
  then show "port_pos s \<le> length s"
    and "port_pos s \<noteq> length s \<Longrightarrow> port_from s \<le> port_pos s \<and> port_pos s < path_pos s"
    by simp_all
qed

subsection \<open>Each derivation computes its position\<close>

lemma sz_add_le: "a + b \<le> n \<Longrightarrow> n < npos \<Longrightarrow> sz_add a b = a + b"
  by (simp add: sz_add_def npos_def)

lemma sz_sub_le: "b \<le> a \<Longrightarrow> a \<le> n \<Longrightarrow> n < npos \<Longrightarrow> sz_sub a b = a - b"
  by (rule sz_sub_small) (simp_all add: npos_def)

lemma colon_not_alpha: "\<not> contains ALPHA CHR '':''"
  by (simp add: contains_def ALPHA_def)

lemma parse_scheme_fresh:
  assumes "scheme_end u = npos" and len: "length (data u) < npos"
  shows "parse_scheme u =
         Some (u\<lparr>authority_start := authority_pos (data u), scheme_end := scheme_pos (data u)\<rparr>)"
proof (cases "starts_with (data u) ''//''")
  case True
  with assms show ?thesis
    by (simp add: parse_scheme_def scheme_pos_def authority_pos_def)
next
  case False
  let ?colon = "sv_find (data u) CHR '':'' 0"
  from sv_find_dest [OF len, of "CHR '':''"] show ?thesis
  proof
    assume "?colon = npos \<and> CHR '':'' \<notin> set (data u)"
    with assms False show ?thesis
      by (simp add: parse_scheme_def scheme_pos_def authority_pos_def scheme_accepted_def)
  next
    assume c: "?colon < length (data u) \<and> ?colon \<noteq> npos \<and> data u ! ?colon = CHR '':'' \<and>
      (\<forall>j < ?colon. data u ! j \<noteq> CHR '':'')"
    have add1: "sz_add ?colon (Suc 0) = Suc ?colon"
      using c len sz_add_le [of ?colon 1 "length (data u)"] by simp
    have add3: "sz_add ?colon 3 = ?colon + 3" if "view (data u) (Suc ?colon) 2 = ''//''"
    proof -
      from that have "length (view (data u) (Suc ?colon) 2) = 2" by simp
      with length_view [of "data u" "Suc ?colon" 2] have "?colon + 3 \<le> length (data u)" by simp
      then show ?thesis using len by (rule sz_add_le)
    qed
    have sub1: "sv_substr (data u) 0 ?colon = Some (view (data u) 0 ?colon)"
      by (rule sv_substr_view) simp
    have sub3: "sv_substr (data u) (?colon + 1) 2 = Some (view (data u) (?colon + 1) 2)"
      using c by (intro sv_substr_view) simp
    show ?thesis
    proof (cases "?colon = 0")
      case True
      with c have "data u ! 0 = CHR '':''" by simp
      with assms False c True show ?thesis
        by (simp add: parse_scheme_def scheme_pos_def authority_pos_def scheme_accepted_def
            sv_substr_view colon_not_alpha)
    next
      case nz: False
      with c have "Suc 0 \<le> length (view (data u) 0 ?colon)" by (simp add: view_def)
      with assms False c show ?thesis
        by (auto simp add: parse_scheme_def scheme_pos_def authority_pos_def scheme_accepted_def
            sv_substr_view add1 add3 Let_def)
    qed
  qed
qed

lemma parse_fragment_fresh:
  "fragment_start u = npos \<Longrightarrow>
   parse_fragment u = Some (u\<lparr>fragment_start := fragment_pos (data u)\<rparr>)"
  by (simp add: parse_fragment_def fragment_pos_def Let_def)

lemma parse_query_fresh:
  assumes "query_start u = npos" "fragment_start u = npos \<or> fragment_start u = fragment_pos (data u)"
    and len: "length (data u) < npos"
  shows "parse_query u =
         Some (u\<lparr>fragment_start := fragment_pos (data u), query_start := query_pos (data u)\<rparr>)"
proof -
  have fp: "fragment_pos (data u) \<noteq> npos" using fragment_pos_le [OF len] len by simp
  have pf: "parse_fragment u = Some (u\<lparr>fragment_start := fragment_pos (data u)\<rparr>)"
    using assms(2) fp by (auto simp: parse_fragment_fresh) (simp add: parse_fragment_def)
  show ?thesis
    using assms(1) by (simp add: parse_query_def pf sv_substr_view query_pos_def Let_def)
qed

subsection \<open>The cache invariant\<close>

lemma pos_not_npos:
  assumes "length s < npos"
  shows "scheme_pos s \<noteq> npos" "authority_pos s \<noteq> npos" "fragment_pos s \<noteq> npos"
    "query_pos s \<noteq> npos" "path_pos s \<noteq> npos" "user_info_pos s \<noteq> npos" "port_pos s \<noteq> npos"
  using assms scheme_pos_le [OF assms] authority_pos_le [OF assms] fragment_pos_le [OF assms]
    query_pos_le [OF assms] path_pos_bounds(1) [OF assms] user_info_pos_bounds(1) [OF assms]
    port_pos_bounds(1) [OF assms]
  by simp_all

lemmas with_defs = with_scheme_def with_fragment_def with_query_def with_path_def
  with_user_info_def with_port_def

lemma cache_ok_with_scheme: "cache_ok u \<Longrightarrow> cache_ok (with_scheme u)"
  by (auto simp: cache_ok_def with_defs)

lemma cache_ok_with_fragment: "cache_ok u \<Longrightarrow> cache_ok (with_fragment u)"
  by (auto simp: cache_ok_def with_defs)

lemma cache_ok_with_query: "cache_ok u \<Longrightarrow> cache_ok (with_query u)"
  by (auto simp: cache_ok_def with_defs)

lemma cache_ok_with_path: "cache_ok u \<Longrightarrow> cache_ok (with_path u)"
  by (auto simp: cache_ok_def with_defs)

lemma cache_ok_with_user_info: "cache_ok u \<Longrightarrow> cache_ok (with_user_info u)"
  by (auto simp: cache_ok_def with_defs)

lemma cache_ok_with_port: "cache_ok u \<Longrightarrow> cache_ok (with_port u)"
  by (auto simp: cache_ok_def with_defs)

lemma parse_scheme_eq:
  assumes "cache_ok u"
  shows "parse_scheme u = Some (with_scheme u)"
proof (cases "scheme_end u = npos")
  case True
  from assms have len: "length (data u) < npos" by (simp add: cache_ok_def)
  show ?thesis by (simp add: parse_scheme_fresh [OF True len] with_defs)
next
  case False
  with assms have "with_scheme u = u" by (auto simp: cache_ok_def with_defs)
  with False show ?thesis by (simp add: parse_scheme_def)
qed

lemma parse_fragment_eq:
  assumes "cache_ok u"
  shows "parse_fragment u = Some (with_fragment u)"
proof (cases "fragment_start u = npos")
  case True
  show ?thesis by (simp add: parse_fragment_fresh [OF True] with_defs)
next
  case False
  with assms have "with_fragment u = u" by (auto simp: cache_ok_def with_defs)
  with False show ?thesis by (simp add: parse_fragment_def)
qed

lemma parse_query_eq:
  assumes "cache_ok u"
  shows "parse_query u = Some (with_query u)"
proof (cases "query_start u = npos")
  case True
  from assms have len: "length (data u) < npos"
    and fs: "fragment_start u = npos \<or> fragment_start u = fragment_pos (data u)"
    by (simp_all add: cache_ok_def)
  show ?thesis by (simp add: parse_query_fresh [OF True fs len] with_defs)
next
  case False
  with assms have "with_query u = u" by (auto simp: cache_ok_def with_defs)
  with False show ?thesis by (simp add: parse_query_def)
qed

lemma parse_path_eq:
  assumes "cache_ok u"
  shows "parse_path u = Some (with_path u)"
proof (cases "authority_end u = npos")
  case False
  with assms have "with_path u = u" by (auto simp: cache_ok_def with_defs)
  with False show ?thesis by (simp add: parse_path_def)
next
  case True
  from assms have len: "length (data u) < npos" by (simp add: cache_ok_def)
  let ?s = "data u"
  let ?u2 = "with_query (with_scheme u)"
  let ?r = "view ?s (path_from ?s) (sz_sub (query_pos ?s) (path_from ?s))"
  have p1: "parse_scheme u = Some (with_scheme u)" by (rule parse_scheme_eq [OF assms])
  have p2: "parse_query (with_scheme u) = Some ?u2"
    by (rule parse_query_eq [OF cache_ok_with_scheme [OF assms]])
  have f2: "data ?u2 = ?s" "scheme_end ?u2 = scheme_pos ?s"
    "authority_start ?u2 = authority_pos ?s" "query_start ?u2 = query_pos ?s"
    by (simp_all add: with_defs)
  have sp: "(if authority_pos ?s \<noteq> length ?s then authority_pos ?s
             else if scheme_pos ?s \<noteq> length ?s \<and> scheme_pos ?s \<noteq> npos
               then scheme_pos ?s else 0) = path_from ?s"
    using pos_not_npos [OF len] by (simp add: path_from_def)
  have sub: "sv_substr ?s (path_from ?s) (sz_sub (query_pos ?s) (path_from ?s)) = Some ?r"
    by (rule sv_substr_view) (rule path_from_le [OF len])
  have r: "length ?r \<le> length ?s - path_from ?s" by (rule length_view)
  then have rn: "length ?r < npos" using len by simp
  have ae: "(if sv_find ?r CHR ''/'' 0 = npos then length ?s
             else sz_add (sv_find ?r CHR ''/'' 0) (path_from ?s)) = path_pos ?s"
    using sv_find_dest [OF rn, of "CHR ''/''"] r path_from_le [OF len]
      sz_add_le [of "sv_find ?r CHR ''/'' 0" "path_from ?s" "length ?s", OF _ len]
    by (auto simp: path_pos_def Let_def)
  have "parse_path u =
        Some (?u2\<lparr>authority_end :=
                (if sv_find ?r CHR ''/'' 0 = npos then length ?s
                 else sz_add (sv_find ?r CHR ''/'' 0) (path_from ?s))\<rparr>)"
    unfolding parse_path_def using True
    by (simp only: p1 p2 bind.bind_lunit Let_def sp f2 sub if_False simp_thms)
  then show ?thesis by (simp only: ae with_path_def)
qed

lemma with_path_with_scheme: "with_path (with_scheme u) = with_path u"
  by (simp add: with_defs)

lemma with_path_id:
  assumes "cache_ok u" "authority_end u \<noteq> npos"
  shows "with_path u = u"
proof -
  from assms have "authority_end u = path_pos (data u)" "scheme_end u = scheme_pos (data u)"
    "authority_start u = authority_pos (data u)" "query_start u = query_pos (data u)"
    "fragment_start u = fragment_pos (data u)"
    by (simp_all add: cache_ok_def)
  then show ?thesis by (simp add: with_defs)
qed

lemma with_user_info_id:
  assumes "cache_ok u" "user_info_end u \<noteq> npos"
  shows "with_user_info u = u"
proof -
  from assms have len: "length (data u) < npos" by (simp add: cache_ok_def)
  from assms have k: "user_info_end u = user_info_pos (data u)"
    "scheme_end u = scheme_pos (data u)" "authority_start u = authority_pos (data u)"
    "authority_pos (data u) = length (data u) \<or> authority_end u = path_pos (data u)"
    by (simp_all add: cache_ok_def)
  show ?thesis
  proof (cases "authority_pos (data u) = length (data u)")
    case True
    with k show ?thesis by (simp add: with_user_info_def with_scheme_def)
  next
    case False
    with k(4) pos_not_npos(5) [OF len] have "authority_end u \<noteq> npos" by simp
    from with_path_id [OF assms(1) this] False k(1) show ?thesis
      by (simp add: with_user_info_def)
  qed
qed

lemma with_port_id:
  assumes "cache_ok u" "port_start u \<noteq> npos"
  shows "with_port u = u"
proof -
  from assms have len: "length (data u) < npos" by (simp add: cache_ok_def)
  from assms have k: "port_start u = port_pos (data u)"
    "user_info_end u = user_info_pos (data u)"
    by (simp_all add: cache_ok_def)
  with pos_not_npos(6) [OF len] have "user_info_end u \<noteq> npos" by simp
  from with_user_info_id [OF assms(1) this] k(1) show ?thesis
    by (simp add: with_port_def)
qed

lemma parse_user_info_eq:
  assumes "cache_ok u"
  shows "parse_user_info u = Some (with_user_info u)"
proof (cases "user_info_end u = npos")
  case False
  with with_user_info_id [OF assms False] show ?thesis by (simp add: parse_user_info_def)
next
  case True
  from assms have len: "length (data u) < npos" by (simp add: cache_ok_def)
  let ?s = "data u"
  have p1: "parse_scheme u = Some (with_scheme u)" by (rule parse_scheme_eq [OF assms])
  have f1: "data (with_scheme u) = ?s" "authority_start (with_scheme u) = authority_pos ?s"
    by (simp_all add: with_defs)
  show ?thesis
  proof (cases "authority_pos ?s = length ?s")
    case absent: True
    then have "user_info_pos ?s = length ?s" by (simp add: user_info_pos_def)
    with True absent show ?thesis
      by (simp add: parse_user_info_def p1 f1 with_user_info_def)
  next
    case present: False
    let ?u2 = "with_path u"
    let ?r = "view ?s (authority_pos ?s) (path_pos ?s - authority_pos ?s)"
    have p2: "parse_path (with_scheme u) = Some ?u2"
      using parse_path_eq [OF cache_ok_with_scheme [OF assms]]
      by (simp only: with_path_with_scheme)
    have f2: "data ?u2 = ?s" "authority_start ?u2 = authority_pos ?s"
      "authority_end ?u2 = path_pos ?s"
      by (simp_all add: with_path_def with_query_def with_fragment_def with_scheme_def)
    have sub0: "sz_sub (path_pos ?s) (authority_pos ?s) = path_pos ?s - authority_pos ?s"
      using authority_le_path [OF len present] path_pos_bounds(1) [OF len] len
      by (rule sz_sub_le)
    have sub: "sv_substr ?s (authority_pos ?s) (path_pos ?s - authority_pos ?s) = Some ?r"
      by (rule sv_substr_view) (rule authority_pos_le [OF len])
    have r: "length ?r \<le> length ?s - authority_pos ?s" by (rule length_view)
    then have rn: "length ?r < npos" using len by simp
    have uie: "(if sv_find ?r CHR ''@'' 0 = npos then length ?s
               else sz_add (sv_find ?r CHR ''@'' 0) (authority_pos ?s)) = user_info_pos ?s"
      using sv_find_dest [OF rn, of "CHR ''@''"] r authority_pos_le [OF len] present
        sz_add_le [of "sv_find ?r CHR ''@'' 0" "authority_pos ?s" "length ?s", OF _ len]
      by (auto simp: user_info_pos_def Let_def)
    have "parse_user_info u =
          Some (?u2\<lparr>user_info_end :=
                  (if sv_find ?r CHR ''@'' 0 = npos then length ?s
                   else sz_add (sv_find ?r CHR ''@'' 0) (authority_pos ?s))\<rparr>)"
      unfolding parse_user_info_def using True present
      by (simp only: p1 p2 bind.bind_lunit Let_def f1 f2 sub0 sub if_False simp_thms)
    then show ?thesis using present by (simp only: uie with_user_info_def if_False)
  qed
qed

lemma with_user_info_fields:
  "data (with_user_info u) = data u"
  "authority_start (with_user_info u) = authority_pos (data u)"
  "user_info_end (with_user_info u) = user_info_pos (data u)"
  "authority_pos (data u) \<noteq> length (data u) \<Longrightarrow>
     authority_end (with_user_info u) = path_pos (data u)"
  by (simp_all add: with_defs)

lemma with_path_with_user_info:
  "authority_pos (data u) \<noteq> length (data u) \<Longrightarrow> with_path (with_user_info u) = with_user_info u"
  by (simp add: with_defs)

lemma parse_port_eq:
  assumes "cache_ok u"
  shows "parse_port u = Some (with_port u)"
proof (cases "port_start u = npos")
  case False
  with with_port_id [OF assms False] show ?thesis by (simp add: parse_port_def)
next
  case True
  from assms have len: "length (data u) < npos" by (simp add: cache_ok_def)
  let ?s = "data u"
  let ?u1 = "with_user_info u"
  have p1: "parse_user_info u = Some ?u1" by (rule parse_user_info_eq [OF assms])
  note f1 = with_user_info_fields [of u]
  show ?thesis
  proof (cases "authority_pos ?s = length ?s")
    case absent: True
    then have "port_pos ?s = length ?s" by (simp add: port_pos_def)
    with True absent show ?thesis
      by (simp add: parse_port_def p1 f1 with_port_def)
  next
    case present: False
    let ?from = "port_from ?s"
    let ?r = "view ?s ?from (path_pos ?s - ?from)"
    let ?found = "sv_find_last_of ?r CHR '':''"
    have p2: "parse_path ?u1 = Some ?u1"
      using parse_path_eq [OF cache_ok_with_user_info [OF assms]]
      by (simp only: with_path_with_user_info [OF present])
    have sp: "(if user_info_pos ?s \<noteq> length ?s then user_info_pos ?s else authority_pos ?s) = ?from"
      by (simp add: port_from_def)
    note pf = port_from_bounds [OF len present]
    have sub0: "sz_sub (path_pos ?s) ?from = path_pos ?s - ?from"
      using pf(2) path_pos_bounds(1) [OF len] len by (rule sz_sub_le)
    have from_le: "?from \<le> length ?s" using pf(2) path_pos_bounds(1) [OF len] by simp
    have sub: "sv_substr ?s ?from (path_pos ?s - ?from) = Some ?r"
      by (rule sv_substr_view) (rule from_le)
    have r: "length ?r \<le> length ?s - ?from" "length ?r \<le> path_pos ?s - ?from"
      by (rule length_view, rule length_view_n)
    then have rn: "length ?r < npos" using len by simp
    show ?thesis
    proof (cases "?found = npos")
      case none: True
      then have "port_pos ?s = length ?s" using present by (simp add: port_pos_def)
      moreover have "parse_port u = Some (?u1\<lparr>port_start := length ?s\<rparr>)"
        unfolding parse_port_def using True present none
        by (simp only: p1 p2 bind.bind_lunit Let_def f1 sp sub0 sub if_False if_True simp_thms)
      ultimately show ?thesis by (simp only: with_port_def)
    next
      case some: False
      with sv_find_last_dest [OF rn, of "CHR '':''"] have fl: "?found < length ?r" by simp
      with r have bound: "?found + ?from + 1 \<le> path_pos ?s" by simp
      have a1: "sz_add ?found ?from = ?found + ?from"
        using bound path_pos_bounds(1) [OF len] len
        by (intro sz_add_le [where n = "length ?s"]) simp_all
      have a2: "sz_add (?found + ?from) 1 = ?found + ?from + 1"
        using bound path_pos_bounds(1) [OF len] len
        by (intro sz_add_le [where n = "length ?s"]) simp_all
      have s2: "sz_sub (path_pos ?s) (?found + ?from + 1) = path_pos ?s - (?found + ?from + 1)"
        using bound path_pos_bounds(1) [OF len] len by (rule sz_sub_le)
      have sub2: "sv_substr ?s (?found + ?from + 1) (path_pos ?s - (?found + ?from + 1)) =
                  Some (view ?s (?found + ?from + 1) (path_pos ?s - (?found + ?from + 1)))"
        using bound path_pos_bounds(1) [OF len] by (intro sv_substr_view) simp
      have pp: "(if \<not> is_digit (view ?s (?found + ?from + 1) (path_pos ?s - (?found + ?from + 1)))
                 then length ?s else ?found + ?from) = port_pos ?s"
        using some present by (simp add: port_pos_def Let_def)
      have "parse_port u =
            Some (?u1\<lparr>port_start :=
               (if \<not> is_digit (view ?s (?found + ?from + 1) (path_pos ?s - (?found + ?from + 1)))
                then length ?s else ?found + ?from)\<rparr>)"
        unfolding parse_port_def using True present some
        by (simp only: p1 p2 bind.bind_lunit Let_def f1 sp sub0 sub a1 a2 s2 sub2
            if_False if_True simp_thms)
      then show ?thesis by (simp only: pp with_port_def)
    qed
  qed
qed

lemma with_port_fields:
  "data (with_port u) = data u"
  "authority_start (with_port u) = authority_pos (data u)"
  "scheme_end (with_port u) = scheme_pos (data u)"
  "user_info_end (with_port u) = user_info_pos (data u)"
  "port_start (with_port u) = port_pos (data u)"
  by (simp_all add: with_defs)

lemma parse_host_eq:
  assumes "cache_ok u"
  shows "parse_host u = Some (with_path (with_port u))"
proof -
  have "parse_port (with_user_info u) = Some (with_port (with_user_info u))"
    by (rule parse_port_eq [OF cache_ok_with_user_info [OF assms]])
  moreover have "with_port (with_user_info u) = with_port u"
    by (simp add: with_defs)
  ultimately show ?thesis
    by (simp add: parse_host_def parse_user_info_eq [OF assms]
        parse_path_eq [OF cache_ok_with_port [OF assms]])
qed

lemma cache_ok_fresh: "length s < npos \<Longrightarrow> cache_ok (uri_of s)"
  by (simp add: cache_ok_def uri_of_def)

lemma with_host_fresh: "with_path (with_port (uri_of s)) = parsed s"
  by (simp add: with_defs uri_of_def parsed_def)

lemma parse_host_fresh: "length s < npos \<Longrightarrow> parse_host (uri_of s) = Some (parsed s)"
  by (simp add: parse_host_eq [OF cache_ok_fresh] with_host_fresh)

subsection \<open>Reachable states\<close>

lemma cache_ok_replace_value:
  assumes "cache_ok u" "replace_value u start len replacement = Some u'" "length (data u') < npos"
  shows "cache_ok u'"
proof (cases "start = npos \<or> len = npos \<or> (len = 0 \<and> replacement = [])")
  case True
  with assms show ?thesis by (simp add: replace_value_def)
next
  case False
  with assms(2) obtain d where "u' = unparse (u\<lparr>data := d\<rparr>)"
    by (auto simp: replace_value_def Option.bind_eq_Some_conv)
  with assms(3) show ?thesis by (simp add: cache_ok_def unparse_def)
qed

lemma reachable_cache_ok: "reachable u \<Longrightarrow> cache_ok u"
proof (induction rule: reachable.induct)
  case (constructed s)
  then show ?case by (rule cache_ok_fresh)
next
  case (scheme_parsed u u')
  then show ?case using parse_scheme_eq cache_ok_with_scheme by fastforce
next
  case (fragment_parsed u u')
  then show ?case using parse_fragment_eq cache_ok_with_fragment by fastforce
next
  case (query_parsed u u')
  then show ?case using parse_query_eq cache_ok_with_query by fastforce
next
  case (path_parsed u u')
  then show ?case using parse_path_eq cache_ok_with_path by fastforce
next
  case (user_info_parsed u u')
  then show ?case using parse_user_info_eq cache_ok_with_user_info by fastforce
next
  case (port_parsed u u')
  then show ?case using parse_port_eq cache_ok_with_port by fastforce
next
  case (host_parsed u u')
  then show ?case
    using parse_host_eq cache_ok_with_path [OF cache_ok_with_port] by fastforce
next
  case (replaced u start len replacement u')
  then show ?case using cache_ok_replace_value by blast
qed

lemma cache_ok_resolved_fields:
  assumes "cache_ok u" "resolved u"
  shows "scheme_end u = scheme_pos (data u)" "authority_start u = authority_pos (data u)"
    "user_info_end u = user_info_pos (data u)" "port_start u = port_pos (data u)"
    "authority_end u = path_pos (data u)" "query_start u = query_pos (data u)"
    "fragment_start u = fragment_pos (data u)" "length (data u) < npos"
  using assms by (simp_all add: cache_ok_def resolved_def)

lemma port_pos_ge_user_info:
  assumes "length s < npos" "port_pos s \<noteq> length s" "user_info_pos s \<noteq> length s"
  shows "user_info_pos s \<le> port_pos s"
  using port_pos_bounds(2) [OF assms(1,2)] assms(3) by (simp add: port_from_def)

lemma port_pos_ge_authority:
  assumes "length s < npos" "port_pos s \<noteq> length s"
  shows "authority_pos s \<le> port_pos s"
proof -
  from assms(2) have "authority_pos s \<noteq> length s" by (auto simp: port_pos_def)
  from port_from_bounds(1) [OF assms(1) this] port_pos_bounds(2) [OF assms]
  show ?thesis by simp
qed

lemma rfc_example_parsed:
  "parse_host (uri_of ''foo://example.com:8042/over/there?name=ferret#nose'') =
   Some \<lparr>data = ''foo://example.com:8042/over/there?name=ferret#nose'', scheme_end = 3,
         authority_start = 6, user_info_end = 50, port_start = 17, authority_end = 22,
         query_start = 33, fragment_start = 45\<rparr>"
  by (simp add: sv_defs parse_defs set_defs)

text \<open>
  C3. In every state a URI value can reach, once all seven offsets are resolved each of
  them is at most the length of the buffer, where the length itself encodes an absent
  component; a present scheme end lies 3 before a present authority start; a present
  authority start is at most \<open>authority_end\<close>; a present user-info end lies from
  \<open>authority_start\<close> to before \<open>authority_end\<close>; a present port start lies from
  \<open>authority_start\<close> (and from a present user-info end) to before \<open>authority_end\<close>; a
  present query start lies before \<open>fragment_start\<close>.
\<close>

theorem resolved_offsets_within:
  assumes "reachable u" and "resolved u"
  shows "offsets_within u"
proof -
  let ?s = "data u"
  from assms have ok: "cache_ok u" by (simp add: reachable_cache_ok)
  note f = cache_ok_resolved_fields [OF ok assms(2)]
  note len = f(8)
  show ?thesis
    unfolding offsets_within_def f(1-7)
    using scheme_pos_le [OF len] authority_pos_le [OF len] user_info_pos_bounds [OF len]
      port_pos_bounds [OF len] path_pos_bounds(1) [OF len] query_pos_le [OF len]
      fragment_pos_le [OF len] scheme_authority_pos [OF len] authority_le_path [OF len]
      query_pos_lt [OF len] port_pos_ge_user_info [OF len] port_pos_ge_authority [OF len]
    by auto
qed

theorem resolved_offsets_within_witness:
  "reachable \<lparr>data = ''foo://example.com:8042/over/there?name=ferret#nose'', scheme_end = 3,
         authority_start = 6, user_info_end = 50, port_start = 17, authority_end = 22,
         query_start = 33, fragment_start = 45\<rparr> \<and>
   resolved \<lparr>data = ''foo://example.com:8042/over/there?name=ferret#nose'', scheme_end = 3,
         authority_start = 6, user_info_end = 50, port_start = 17, authority_end = 22,
         query_start = 33, fragment_start = 45\<rparr> \<and>
   offsets_within \<lparr>data = ''foo://example.com:8042/over/there?name=ferret#nose'',
         scheme_end = 3, authority_start = 6, user_info_end = 50, port_start = 17,
         authority_end = 22, query_start = 33, fragment_start = 45\<rparr>"
proof -
  let ?u = "\<lparr>data = ''foo://example.com:8042/over/there?name=ferret#nose'', scheme_end = 3,
         authority_start = 6, user_info_end = 50, port_start = 17, authority_end = 22,
         query_start = 33, fragment_start = 45\<rparr>"
  have "reachable (uri_of ''foo://example.com:8042/over/there?name=ferret#nose'')"
    by (rule reachable.constructed) (simp add: npos_def)
  then have r: "reachable ?u" using rfc_example_parsed by (rule reachable.host_parsed)
  have v: "resolved ?u" by (simp add: resolved_def npos_def)
  from r v resolved_offsets_within [OF r v] show ?thesis by simp
qed

text \<open>
  The chain of the seven offsets as the claim C3 states it fails on the URI
  \<open>foo://example.com:8042/over/there?name=ferret#nose\<close>: all offsets are resolved, and
  the absent user info has \<open>user_info_end\<close> at the length 50, beyond \<open>port_start\<close> at 17.
\<close>

theorem offsets_chain_counterexample:
  "map_option resolved
     (parse_host (uri_of ''foo://example.com:8042/over/there?name=ferret#nose'')) = Some True \<and>
   map_option offsets_chain
     (parse_host (uri_of ''foo://example.com:8042/over/there?name=ferret#nose'')) = Some False"
  by (simp add: rfc_example_parsed resolved_def offsets_chain_def npos_def)

section \<open>Mutation: results\<close>

subsection \<open>Buffers with a common prefix\<close>






















subsection \<open>What \<open>host()\<close> returns\<close>










subsection \<open>The range the path setter replaces\<close>








subsection \<open>The query in the new buffer\<close>





subsection \<open>What the encoder writes\<close>








subsection \<open>Every mutator rewrites through \<open>replace_value\<close>\<close>
























subsection \<open>Setting the path\<close>





text \<open>
  With an authority and neither path nor query the new path is appended: on
  \<open>http://example.com\<close> the path \<open>/x\<close> gives \<open>http://example.com/x\<close>, and \<open>host()\<close>
  returns \<open>example.com\<close> before and after.
\<close>

lemma path_set_without_path:
  "map_option fst (host (uri_of ''http://example.com'')) = Some ''example.com'' \<and>
   host (uri_of ''http://example.com'') \<bind> (\<lambda>(h, v). set_path v ''/x'') =
     Some (uri_of ''http://example.com/x'') \<and>
   map_option fst (host (uri_of ''http://example.com/x'')) = Some ''example.com''"
  by (simp add: host_def set_path_def encoded_path_def replace_value_def unparse_def
      sv_defs parse_defs set_defs PCHAR_NOT_PCT_ENCODED_def UNRESERVED_def SUB_DELIMS_def)

text \<open>
  A URI with a query and no path has its \<open>authority_end\<close> at the length of the buffer,
  beyond \<open>query_start\<close>. The path setter passes \<open>query_start - authority_end\<close> as the
  length of the range, which wraps around, and \<open>replace_value\<close> then keeps the whole
  buffer and appends the new path and a second copy of the query: on
  \<open>http://example.com?x=1\<close> the path \<open>/new\<close> gives \<open>http://example.com?x=1/new?x=1\<close>,
  where \<open>query_start\<close> is 18 as before. Before and after, \<open>host()\<close> returns all that
  follows the start of the authority, since the URI has neither port nor path.
\<close>

lemma path_set_before_query_without_path:
  "map_option (\<lambda>(h, v). (h, authority_end v, query_start v))
     (host (uri_of ''http://example.com?x=1'')) =
     Some (''example.com?x=1'', 22, 18) \<and>
   host (uri_of ''http://example.com?x=1'') \<bind> (\<lambda>(h, v). set_path v ''/new'') =
     Some (uri_of ''http://example.com?x=1/new?x=1'') \<and>
   map_option (\<lambda>(h, v). (h, authority_end v, query_start v))
     (host (uri_of ''http://example.com?x=1/new?x=1'')) =
     Some (''example.com?x=1/new?x=1'', 30, 18)"
  by (simp add: host_def set_path_def encoded_path_def replace_value_def unparse_def
      sv_defs parse_defs set_defs PCHAR_NOT_PCT_ENCODED_def UNRESERVED_def SUB_DELIMS_def)





end
